theory Spec2Isabelle
  imports Complex_Main "HOL-Library.Sublist"
begin

section \<open>Perceptual de-duplication of images: the embedded program\<close>

text \<open>
  The development embeds \<^verbatim>\<open>perceptual_dedup.py\<close>: the average hash of an image, the
  Hamming distance of two hashes, and the loop that sorts the images of a batch into
  unique ones and duplicates. Python integers are \<^typ>\<open>int\<close>, Python lists are HOL lists,
  an exception is a value of the type \<open>error\<close>.
\<close>

subsection \<open>Constants\<close>

definition HASH_SIZE :: nat where
  "HASH_SIZE = 8"

definition HASH_DIFF_THRESHOLD :: int where
  "HASH_DIFF_THRESHOLD = 5"

text \<open>The default of \<^verbatim>\<open>--max-image-size\<close>, in bytes.\<close>

definition MAX_IMAGE_SIZE :: nat where
  "MAX_IMAGE_SIZE = 50 * 1024 * 1024"

subsection \<open>Exceptions\<close>

text \<open>
  The exception classes the per-image \<^verbatim>\<open>try\<close> block tells apart: the first three are
  reported as an invalid or corrupted image, every other \<^verbatim>\<open>Exception\<close> by its message.
\<close>

datatype error = IOError | SyntaxError | ValueError | ZeroDivisionError | OtherException

subsection \<open>The average hash\<close>

text \<open>
  \<^verbatim>\<open>image.convert("L").resize((hash_size, hash_size), Resampling.LANCZOS)\<close> followed by
  \<^verbatim>\<open>list(image.getdata())\<close> is the imaging library's work: the parameter \<open>resample\<close>
  stands for it. It yields the intensities of the resampled grid in row-major order, or
  the exception the library raised.

  \<^verbatim>\<open>avg = sum(pixels) / len(pixels)\<close> is Python's true division, which raises
  \<^verbatim>\<open>ZeroDivisionError\<close> on an empty list. The quotient is taken exactly, as a rational:
  Python rounds the exact quotient of two integers to the nearest double and compares an
  integer with a double by value, so for 8-bit intensities and any grid of fewer than
  \<open>2\<^sup>4\<^sup>4\<close> cells (the rounding error stays below \<open>1 / len(pixels)\<close>, the least gap
  between an intensity and a mean that differs from it) every comparison
  \<^verbatim>\<open>pixel >= avg\<close> comes out as it does on the exact quotient; with the 64 cells of
  \<open>HASH_SIZE\<close> the double is the exact quotient.
\<close>

definition average_hash ::
  "('img \<Rightarrow> nat \<Rightarrow> error + int list) \<Rightarrow> 'img \<Rightarrow> nat \<Rightarrow> error + int list" where
  "average_hash resample img hash_size =
     (case resample img hash_size of
        Inl e \<Rightarrow> Inl e
      | Inr pixels \<Rightarrow>
          if length pixels = 0 then Inl ZeroDivisionError
          else
            let avg = (of_int (sum_list pixels) :: rat) / of_nat (length pixels);
                bits = map (\<lambda>pixel. if of_int pixel \<ge> avg then 1 else 0) pixels
            in Inr bits)"

subsection \<open>The Hamming distance\<close>

text \<open>
  \<^verbatim>\<open>sum(el1 != el2 for el1, el2 in zip(hash1, hash2))\<close>: \<^verbatim>\<open>zip\<close> stops at the end of
  the shorter list, and a Boolean counts as 0 or 1 in the sum.
\<close>

definition hamming_distance :: "'a list \<Rightarrow> 'a list \<Rightarrow> int" where
  "hamming_distance hash1 hash2 =
     (\<Sum>(el1, el2) \<leftarrow> zip hash1 hash2. of_bool (el1 \<noteq> el2))"

subsection \<open>The images of a batch\<close>

text \<open>
  One entry of \<^verbatim>\<open>image_files\<close>, with what the file system, the imaging library and
  the standard output answer for it: \<open>getsize\<close> is \<^verbatim>\<open>os.path.getsize(img_path)\<close>, and
  \<open>opened\<close> is the outcome of \<^verbatim>\<open>Image.open(img_path)\<close>, \<^verbatim>\<open>img.verify()\<close> and
  \<^verbatim>\<open>img.load()\<close> in this order: the decoded image, or the exception one of the three
  raised. Where \<^verbatim>\<open>verify\<close> closes the file, as the library does for PNG and JPEG
  files, the \<^verbatim>\<open>load\<close> that follows raises, and \<open>opened\<close> is that exception. The path
  comes from the walk over the extracted directory just before the loop, so the size of
  the file is known.

  Each message the loop prints about a file names its path. \<open>print_raises\<close> is \<open>None\<close>
  when the standard output takes such a message, and the exception that \<^verbatim>\<open>print\<close>
  raises when it does not: a \<^verbatim>\<open>UnicodeEncodeError\<close>, which is a \<^verbatim>\<open>ValueError\<close>, where
  the output cannot encode the name, an \<^verbatim>\<open>IOError\<close> where it is closed.
\<close>

record 'img image_file =
  img_path :: string
  getsize :: nat
  opened :: "error + 'img"
  print_raises :: "error option"

text \<open>
  The three ways in which the \<^verbatim>\<open>try\<close> block ends an iteration by \<^verbatim>\<open>continue\<close>, each
  after the message it prints: the file is larger than \<^verbatim>\<open>args.max_image_size\<close>; an
  \<^verbatim>\<open>IOError\<close>, \<^verbatim>\<open>SyntaxError\<close> or \<^verbatim>\<open>ValueError\<close> was raised; any other
  \<^verbatim>\<open>Exception\<close> was raised.
\<close>

datatype skip = File_too_large | Invalid_or_corrupted error | Error_processing error

text \<open>
  An iteration that yields no hash either goes on to the next image or raises: the
  \<^verbatim>\<open>print\<close> of an \<^verbatim>\<open>except\<close> clause is outside the \<^verbatim>\<open>try\<close> block, so an exception it
  raises leaves the loop.
\<close>

datatype ending = Continues skip | Raises error

text \<open>
  The body of the \<^verbatim>\<open>try\<close> block: it raises (\<open>Inl\<close>), it reports a file that is too
  large and continues, or it yields the hash. The \<^verbatim>\<open>print\<close> of the size check is inside
  the block: what it raises is caught by the \<^verbatim>\<open>except\<close> clauses below.
\<close>

definition try_body ::
  "('img \<Rightarrow> nat \<Rightarrow> error + int list) \<Rightarrow> nat \<Rightarrow> 'img image_file
     \<Rightarrow> error + (skip + int list)" where
  "try_body resample max_image_size f =
     (if getsize f > max_image_size then
        (case print_raises f of
           Some e \<Rightarrow> Inl e
         | None \<Rightarrow> Inr (Inl File_too_large))
      else
        case opened f of
          Inl e \<Rightarrow> Inl e
        | Inr img \<Rightarrow>
            (case average_hash resample img HASH_SIZE of
               Inl e \<Rightarrow> Inl e
             | Inr img_hash \<Rightarrow> Inr (Inr img_hash)))"

text \<open>
  The \<^verbatim>\<open>try\<close> statement: an exception of the body is caught by one of the two
  \<^verbatim>\<open>except\<close> clauses, which prints its message and continues; if that \<^verbatim>\<open>print\<close>
  raises, the exception is not caught here.
\<close>

definition try_hash ::
  "('img \<Rightarrow> nat \<Rightarrow> error + int list) \<Rightarrow> nat \<Rightarrow> 'img image_file \<Rightarrow> ending + int list" where
  "try_hash resample max_image_size f =
     (case try_body resample max_image_size f of
        Inl e \<Rightarrow>
          (case print_raises f of
             Some e' \<Rightarrow> Inl (Raises e')
           | None \<Rightarrow>
               if e = IOError \<or> e = SyntaxError \<or> e = ValueError
               then Inl (Continues (Invalid_or_corrupted e))
               else Inl (Continues (Error_processing e)))
      | Inr (Inl reason) \<Rightarrow> Inl (Continues reason)
      | Inr (Inr img_hash) \<Rightarrow> Inr img_hash)"

subsection \<open>The classification loop\<close>

text \<open>The three lists the loop fills.\<close>

record state =
  unique_hashes :: "int list list"
  unique_filepaths :: "string list"
  duplicates :: "string list"

definition init_state :: state where
  "init_state = \<lparr>unique_hashes = [], unique_filepaths = [], duplicates = []\<rparr>"

text \<open>
  The inner loop: \<^verbatim>\<open>is_dup\<close> becomes true at the first stored hash within the
  threshold, and \<^verbatim>\<open>break\<close> leaves the loop there.
\<close>

fun is_dup_scan :: "int list \<Rightarrow> int list list \<Rightarrow> bool" where
  "is_dup_scan img_hash [] = False"
| "is_dup_scan img_hash (uhash # rest) =
     (if hamming_distance img_hash uhash \<le> HASH_DIFF_THRESHOLD then True
      else is_dup_scan img_hash rest)"

text \<open>
  What one iteration of the outer loop does with an image is named by a verdict: it
  skipped the image (and printed why), it appended the path to \<^verbatim>\<open>duplicates\<close>, or it
  appended the hash and the path to the lists of unique images. The program keeps no
  other record of an image: in particular it does not store which hash a duplicate
  matched. The fourth verdict is not one of the specification: an exception left the
  iteration, and with it the loop. It reaches the outer \<^verbatim>\<open>except Exception\<close>, which
  removes the temporary directories and calls \<^verbatim>\<open>sys.exit(1)\<close>: the run is aborted and
  writes no archive.
\<close>

datatype verdict = Unique | Duplicate | Skipped skip | Aborted error

fun aborted :: "verdict \<Rightarrow> bool" where
  "aborted (Aborted e) = True"
| "aborted v = False"

definition classify :: "state \<Rightarrow> string \<Rightarrow> int list \<Rightarrow> verdict \<times> state" where
  "classify st path img_hash =
     (if is_dup_scan img_hash (unique_hashes st)
      then (Duplicate, st\<lparr>duplicates := duplicates st @ [path]\<rparr>)
      else (Unique, st\<lparr>unique_hashes := unique_hashes st @ [img_hash],
                       unique_filepaths := unique_filepaths st @ [path]\<rparr>))"

definition process_image ::
  "('img \<Rightarrow> nat \<Rightarrow> error + int list) \<Rightarrow> nat \<Rightarrow> state \<Rightarrow> 'img image_file \<Rightarrow> verdict \<times> state" where
  "process_image resample max_image_size st f =
     (case try_hash resample max_image_size f of
        Inl (Continues reason) \<Rightarrow> (Skipped reason, st)
      | Inl (Raises e) \<Rightarrow> (Aborted e, st)
      | Inr img_hash \<Rightarrow> classify st (img_path f) img_hash)"

text \<open>
  The outer loop. After an aborted iteration no further image is processed; the state
  is the one in which the loop was left.
\<close>

fun process_images ::
  "('img \<Rightarrow> nat \<Rightarrow> error + int list) \<Rightarrow> nat \<Rightarrow> state \<Rightarrow> 'img image_file list
     \<Rightarrow> verdict list \<times> state" where
  "process_images resample max_image_size st [] = ([], st)"
| "process_images resample max_image_size st (f # fs) =
     (let (v, st') = process_image resample max_image_size st f
      in if aborted v then ([v], st')
         else
           let (vs, st'') = process_images resample max_image_size st' fs
           in (v # vs, st''))"

text \<open>A run starts from the three empty lists.\<close>

definition run ::
  "('img \<Rightarrow> nat \<Rightarrow> error + int list) \<Rightarrow> nat \<Rightarrow> 'img image_file list \<Rightarrow> verdict list \<times> state" where
  "run resample max_image_size image_files =
     process_images resample max_image_size init_state image_files"

subsection \<open>The classifier as the specification words it\<close>

text \<open>
  The specification describes the classifier over an accepted set of pairs of a
  fingerprint and a representative identifier, with a verdict that names the
  representative of a duplicate. These definitions follow its words, for comparison with
  \<open>classify\<close>; the accepted set of a state is its two lists of unique images, zipped.
\<close>

datatype spec_verdict = Spec_Unique | Spec_Duplicate_of string

definition spec_classify ::
  "(int list \<times> string) list \<Rightarrow> string \<Rightarrow> int list \<Rightarrow> spec_verdict \<times> (int list \<times> string) list" where
  "spec_classify accepted new_id fp =
     (case find (\<lambda>(member_fp, representative).
                   hamming_distance fp member_fp \<le> HASH_DIFF_THRESHOLD) accepted of
        Some (member_fp, representative) \<Rightarrow> (Spec_Duplicate_of representative, accepted)
      | None \<Rightarrow> (Spec_Unique, accepted @ [(fp, new_id)]))"

definition accepted_set :: "state \<Rightarrow> (int list \<times> string) list" where
  "accepted_set st = zip (unique_hashes st) (unique_filepaths st)"

fun forget_representative :: "spec_verdict \<Rightarrow> verdict" where
  "forget_representative Spec_Unique = Unique"
| "forget_representative (Spec_Duplicate_of representative) = Duplicate"

subsection \<open>Predicates of the claims\<close>

text \<open>Every two members at different positions are farther apart than the threshold.\<close>

definition pairwise_far :: "int list list \<Rightarrow> bool" where
  "pairwise_far hs \<longleftrightarrow>
     (\<forall>i < length hs. \<forall>j < length hs.
        i \<noteq> j \<longrightarrow> hamming_distance (hs ! i) (hs ! j) > HASH_DIFF_THRESHOLD)"

subsection \<open>Inputs of the examples\<close>

text \<open>
  For the examples an image is given as its grey grid, already of the size asked for:
  resampling it to that size leaves it as it is, and any other size is refused.
\<close>

definition grid_resample :: "int list \<Rightarrow> nat \<Rightarrow> error + int list" where
  "grid_resample img hash_size =
     (if length img = hash_size * hash_size then Inr img else Inl ValueError)"

definition grid_file :: "string \<Rightarrow> int list \<Rightarrow> int list image_file" where
  "grid_file path grid =
     \<lparr>img_path = path, getsize = 1024, opened = Inr grid, print_raises = None\<rparr>"

text \<open>A file that the imaging library cannot open.\<close>

definition corrupt_file :: "string \<Rightarrow> int list image_file" where
  "corrupt_file path =
     \<lparr>img_path = path, getsize = 1024, opened = Inl IOError, print_raises = None\<rparr>"

text \<open>
  The same file under a name that the standard output cannot encode: \<^verbatim>\<open>print\<close> raises
  a \<^verbatim>\<open>UnicodeEncodeError\<close>, a \<^verbatim>\<open>ValueError\<close>.
\<close>

definition unprintable_corrupt_file :: "string \<Rightarrow> int list image_file" where
  "unprintable_corrupt_file path =
     \<lparr>img_path = path, getsize = 1024, opened = Inl IOError,
      print_raises = Some ValueError\<rparr>"

text \<open>
  A file that the library opens and verifies, and whose \<^verbatim>\<open>load\<close> after the
  \<^verbatim>\<open>verify\<close> raises.
\<close>

definition unloadable_file :: "string \<Rightarrow> int list image_file" where
  "unloadable_file path =
     \<lparr>img_path = path, getsize = 1024, opened = Inl OtherException, print_raises = None\<rparr>"

text \<open>
  Three grids of 64 pixels, white on black: \<open>grid_A\<close> is white in its first six
  pixels, \<open>grid_B\<close> in the fourth to sixth, \<open>grid_C\<close> in the fourth to ninth. Their hashes
  have a 1 where the grid is white: \<open>hash_A\<close> and \<open>hash_B\<close> differ in 3 bits, \<open>hash_B\<close>
  and \<open>hash_C\<close> in 3 bits, \<open>hash_A\<close> and \<open>hash_C\<close> in 6 bits.
\<close>

definition grid_A :: "int list" where
  "grid_A = replicate 3 255 @ replicate 3 255 @ replicate 3 0 @ replicate 55 0"

definition grid_B :: "int list" where
  "grid_B = replicate 3 0 @ replicate 3 255 @ replicate 3 0 @ replicate 55 0"

definition grid_C :: "int list" where
  "grid_C = replicate 3 0 @ replicate 3 255 @ replicate 3 255 @ replicate 55 0"

definition hash_A :: "int list" where
  "hash_A = replicate 3 1 @ replicate 3 1 @ replicate 3 0 @ replicate 55 0"

definition hash_B :: "int list" where
  "hash_B = replicate 3 0 @ replicate 3 1 @ replicate 3 0 @ replicate 55 0"

definition hash_C :: "int list" where
  "hash_C = replicate 3 0 @ replicate 3 1 @ replicate 3 1 @ replicate 55 0"

section \<open>Properties of the Hamming distance\<close>

lemma hamming_distance_Nil [simp]:
  "hamming_distance [] ys = 0" "hamming_distance xs [] = 0"
  by (simp_all add: hamming_distance_def)

lemma hamming_distance_Cons [simp]:
  "hamming_distance (x # xs) (y # ys) = of_bool (x \<noteq> y) + hamming_distance xs ys"
  by (simp add: hamming_distance_def)

lemma hamming_distance_filter:
  "hamming_distance xs ys = int (length (filter (\<lambda>(x, y). x \<noteq> y) (zip xs ys)))"
proof (induction xs arbitrary: ys)
  case Nil
  show ?case by simp
next
  case (Cons x xs)
  show ?case
  proof (cases ys)
    case Nil
    then show ?thesis by simp
  next
    case (Cons y ys')
    then show ?thesis using Cons.IH [of ys'] by simp
  qed
qed

lemma hamming_distance_card:
  "hamming_distance xs ys =
     int (card {i. i < min (length xs) (length ys) \<and> xs ! i \<noteq> ys ! i})"
proof -
  have "{i. i < length (zip xs ys) \<and> (case zip xs ys ! i of (x, y) \<Rightarrow> x \<noteq> y)} =
        {i. i < min (length xs) (length ys) \<and> xs ! i \<noteq> ys ! i}"
    by auto
  then show ?thesis
    by (simp add: hamming_distance_filter length_filter_conv_card)
qed

lemma hamming_distance_sym: "hamming_distance xs ys = hamming_distance ys xs"
proof -
  have "{i. i < min (length xs) (length ys) \<and> xs ! i \<noteq> ys ! i} =
        {i. i < min (length ys) (length xs) \<and> ys ! i \<noteq> xs ! i}"
    by auto
  then show ?thesis by (simp add: hamming_distance_card)
qed

lemma hamming_distance_nonneg: "0 \<le> hamming_distance xs ys"
  by (simp add: hamming_distance_filter)

lemma hamming_distance_le_min:
  "hamming_distance xs ys \<le> int (min (length xs) (length ys))"
proof -
  have "length (filter (\<lambda>(x, y). x \<noteq> y) (zip xs ys)) \<le> length (zip xs ys)"
    by (rule length_filter_le)
  then show ?thesis by (simp add: hamming_distance_filter)
qed

lemma hamming_distance_zero_iff:
  "length xs = length ys \<Longrightarrow> hamming_distance xs ys = 0 \<longleftrightarrow> xs = ys"
proof (induction xs ys rule: list_induct2)
  case Nil
  show ?case by simp
next
  case (Cons x xs y ys)
  have "0 \<le> hamming_distance xs ys" by (rule hamming_distance_nonneg)
  with Cons.IH show ?case by (cases "x = y") auto
qed

lemma hamming_distance_append:
  "length xs = length ys \<Longrightarrow>
     hamming_distance (xs @ xs') (ys @ ys') = hamming_distance xs ys + hamming_distance xs' ys'"
  by (induction xs ys rule: list_induct2) simp_all

lemma hamming_distance_replicate:
  "hamming_distance (replicate n a) (replicate n b) = (if a = b then 0 else int n)"
  by (induction n) simp_all

lemma hamming_distance_same [simp]: "hamming_distance xs xs = 0"
  by (induction xs) simp_all

lemma hamming_distance_take:
  "hamming_distance xs ys = hamming_distance (take (length ys) xs) (take (length xs) ys)"
proof (induction xs arbitrary: ys)
  case Nil
  show ?case by simp
next
  case (Cons x xs)
  show ?case
  proof (cases ys)
    case Nil
    then show ?thesis by simp
  next
    case (Cons y ys')
    then show ?thesis using Cons.IH [of ys'] by simp
  qed
qed

text \<open>
  Claim C5. For hashes \<open>a\<close> and \<open>b\<close> of equal length the distance is the number of
  positions at which they differ, it is symmetric, it is zero exactly when \<open>a = b\<close>, and it
  lies between 0 and the length of \<open>a\<close>.
\<close>

theorem hamming_distance_metric:
  assumes "length a = length b"
  shows "hamming_distance a b = int (card {i. i < length a \<and> a ! i \<noteq> b ! i})
       \<and> hamming_distance a b = hamming_distance b a
       \<and> (hamming_distance a b = 0 \<longleftrightarrow> a = b)
       \<and> 0 \<le> hamming_distance a b
       \<and> hamming_distance a b \<le> int (length a)"
proof -
  have "hamming_distance a b = int (card {i. i < length a \<and> a ! i \<noteq> b ! i})"
    using assms by (simp add: hamming_distance_card)
  moreover have "hamming_distance a b = hamming_distance b a"
    by (rule hamming_distance_sym)
  moreover have "hamming_distance a b = 0 \<longleftrightarrow> a = b"
    using assms by (rule hamming_distance_zero_iff)
  moreover have "0 \<le> hamming_distance a b"
    by (rule hamming_distance_nonneg)
  moreover have "hamming_distance a b \<le> int (length a)"
    using hamming_distance_le_min [of a b] assms by simp
  ultimately show ?thesis by blast
qed

theorem hamming_distance_metric_witness:
  "length [1, 0, 1, 1 :: int] = length [1, 1, 1, 0 :: int]
   \<and> hamming_distance [1, 0, 1, 1 :: int] [1, 1, 1, 0] = 2
   \<and> hamming_distance [1, 0, 1, 1 :: int] [1, 1, 1, 0] = hamming_distance [1, 1, 1, 0] [1, 0, 1, 1 :: int]
   \<and> int (card {i. i < length [1, 0, 1, 1 :: int] \<and> [1, 0, 1, 1 :: int] ! i \<noteq> [1, 1, 1, 0] ! i}) = 2
   \<and> hamming_distance [1, 0, 1, 1 :: int] [1, 1, 1, 0] \<le> int (length [1, 0, 1, 1 :: int])"
  using hamming_distance_metric [of "[1, 0, 1, 1 :: int]" "[1, 1, 1, 0]"]
  by simp

text \<open>
  Claim C3, as amended. The claim says that the distance of two hashes of different
  lengths fails with a length-mismatch error. The function has no such check: for lists
  of any two lengths it returns the number of positions, among those both lists have,
  at which they differ; what the longer list has beyond the shorter one is ignored.
\<close>

theorem hamming_distance_unequal_lengths:
  "hamming_distance a b = int (card {i. i < min (length a) (length b) \<and> a ! i \<noteq> b ! i})
   \<and> hamming_distance a b = hamming_distance (take (length b) a) (take (length a) b)"
  using hamming_distance_card [of a b] hamming_distance_take [of a b] by simp

text \<open>
  The claim as stated fails: hashes of lengths 3 and 1 have a distance, here 0, and the
  scan that calls the function goes on with it and finds a duplicate.
\<close>

theorem hamming_distance_length_mismatch_counterexample:
  "length [1, 0, 1 :: int] \<noteq> length [1 :: int]
   \<and> hamming_distance [1, 0, 1 :: int] [1] = 0
   \<and> is_dup_scan [1, 0, 1] [[1]]"
  by (simp add: HASH_DIFF_THRESHOLD_def)

section \<open>Properties of the average hash\<close>

lemma average_hash_Inr:
  assumes "resample img hs = Inr pixels" and "pixels \<noteq> []"
  shows "average_hash resample img hs =
           Inr (map (\<lambda>pixel. if (of_int (sum_list pixels) :: rat) / of_nat (length pixels) \<le> of_int pixel
                              then 1 else 0) pixels)"
  using assms by (simp add: average_hash_def)

lemma average_hash_Nil:
  "resample img hs = Inr [] \<Longrightarrow> average_hash resample img hs = Inl ZeroDivisionError"
  by (simp add: average_hash_def)

lemma mean_le_iff:
  assumes "0 < n"
  shows "(of_int s :: rat) / of_nat n \<le> of_int p \<longleftrightarrow> s \<le> p * int n"
proof -
  have "(of_int s :: rat) / of_nat n \<le> of_int p \<longleftrightarrow> (of_int s :: rat) \<le> of_int p * of_nat n"
    using assms by (simp add: pos_divide_le_eq)
  also have "\<dots> \<longleftrightarrow> (of_int s :: rat) \<le> of_int (p * int n)"
    by simp
  also have "\<dots> \<longleftrightarrow> s \<le> p * int n"
    by (simp only: of_int_le_iff)
  finally show ?thesis .
qed

lemma average_hash_uniform:
  assumes "resample img hs = Inr (replicate n v)" and "0 < n"
  shows "average_hash resample img hs = Inr (replicate n 1)"
proof -
  have "replicate n v \<noteq> []" using assms(2) by simp
  moreover have "(of_int (sum_list (replicate n v)) :: rat) / of_nat (length (replicate n v)) = of_int v"
    using assms(2) by (simp add: sum_list_replicate)
  ultimately show ?thesis
    using average_hash_Inr [of resample img hs "replicate n v"] assms(1)
    by (simp add: map_replicate)
qed

lemma average_hash_nth:
  assumes "resample img hs = Inr pixels" and "pixels \<noteq> []"
  shows "\<exists>bits. average_hash resample img hs = Inr bits
           \<and> length bits = length pixels
           \<and> (\<forall>i < length pixels.
                 bits ! i =
                   (if (of_int (sum_list pixels) :: rat) / of_nat (length pixels)
                         \<le> of_int (pixels ! i)
                    then 1 else 0)
               \<and> (bits ! i = 1 \<longleftrightarrow> sum_list pixels \<le> pixels ! i * int (length pixels)))"
proof -
  let ?avg = "(of_int (sum_list pixels) :: rat) / of_nat (length pixels)"
  let ?bits = "map (\<lambda>pixel. if ?avg \<le> of_int pixel then 1 else 0 :: int) pixels"
  have pos: "0 < length pixels" using assms(2) by simp
  have "average_hash resample img hs = Inr ?bits"
    using assms by (rule average_hash_Inr)
  moreover have "length ?bits = length pixels" by simp
  moreover have "\<forall>i < length pixels.
      ?bits ! i = (if ?avg \<le> of_int (pixels ! i) then 1 else 0)
    \<and> (?bits ! i = 1 \<longleftrightarrow> sum_list pixels \<le> pixels ! i * int (length pixels))"
    using mean_le_iff [OF pos] by simp
  ultimately show ?thesis by blast
qed

text \<open>
  Claim C4. When the library hands back the \<open>hash_size\<close> by \<open>hash_size\<close> grid, the hash
  has \<open>hash_size\<^sup>2\<close> bits, and bit \<open>i\<close> is 1 exactly when pixel \<open>i\<close> of the grid (in the
  row-major order of \<^verbatim>\<open>getdata\<close>) is at least the exact mean of all the pixels: the mean
  is a quotient of rationals, not an integer division. For a positive \<open>hash_size\<close> a hash
  is returned; for \<open>hash_size = 0\<close> the division raises and none is.
\<close>

theorem average_hash_bits:
  assumes "resample img hash_size = Inr pixels"
      and "length pixels = hash_size * hash_size"
  shows "(0 < hash_size \<longrightarrow> (\<exists>bits. average_hash resample img hash_size = Inr bits))
       \<and> (\<forall>bits. average_hash resample img hash_size = Inr bits \<longrightarrow>
            length bits = hash_size * hash_size
          \<and> (\<forall>i < hash_size * hash_size.
                bits ! i =
                  (if (of_int (sum_list pixels) :: rat) / of_nat (hash_size * hash_size)
                        \<le> of_int (pixels ! i)
                   then 1 else 0)
              \<and> (bits ! i = 1 \<longleftrightarrow> sum_list pixels \<le> pixels ! i * int (hash_size * hash_size))))"
proof (cases "pixels = []")
  case True
  then have "hash_size = 0" using assms(2) by simp
  moreover have "average_hash resample img hash_size = Inl ZeroDivisionError"
    using assms(1) True by (simp add: average_hash_Nil)
  ultimately show ?thesis by simp
next
  case False
  from average_hash_nth [of resample img hash_size pixels, OF assms(1) False]
  show ?thesis unfolding assms(2) by auto
qed

theorem average_hash_bits_witness:
  "grid_resample [10, 20, 30, 41] 2 = Inr [10, 20, 30, 41]
   \<and> length [10, 20, 30, 41 :: int] = 2 * 2
   \<and> (0 :: nat) < 2
   \<and> average_hash grid_resample [10, 20, 30, 41] 2 = Inr [0, 0, 1, 1]"
  using average_hash_bits [of grid_resample "[10, 20, 30, 41]" 2 "[10, 20, 30, 41]"]
  by (simp add: grid_resample_def average_hash_def)

text \<open>
  Claim C10. An image whose resampled grid has one intensity everywhere hashes to all
  ones, whatever the intensity; hence the hashes of two such images are at distance 0.
\<close>

theorem uniform_all_ones:
  assumes "resample img1 hash_size = Inr (replicate (hash_size * hash_size) v1)"
      and "resample img2 hash_size = Inr (replicate (hash_size * hash_size) v2)"
      and "0 < hash_size"
  shows "\<exists>h1 h2. average_hash resample img1 hash_size = Inr h1
               \<and> average_hash resample img2 hash_size = Inr h2
               \<and> h1 = replicate (hash_size * hash_size) 1
               \<and> h2 = replicate (hash_size * hash_size) 1
               \<and> hamming_distance h1 h2 = 0"
  using average_hash_uniform [of resample img1 hash_size "hash_size * hash_size" v1]
    average_hash_uniform [of resample img2 hash_size "hash_size * hash_size" v2] assms
  by simp

theorem uniform_all_ones_witness:
  "grid_resample (replicate (8 * 8) 29) 8 = Inr (replicate (8 * 8) 29)
   \<and> grid_resample (replicate (8 * 8) 76) 8 = Inr (replicate (8 * 8) 76)
   \<and> (0 :: nat) < 8
   \<and> average_hash grid_resample (replicate (8 * 8) 29) 8 = Inr (replicate (8 * 8) 1)
   \<and> average_hash grid_resample (replicate (8 * 8) 76) 8 = Inr (replicate (8 * 8) 1)
   \<and> hamming_distance (replicate (8 * 8) (1 :: int)) (replicate (8 * 8) 1) = 0"
  using uniform_all_ones [of grid_resample "replicate (8 * 8) 29" 8 29 "replicate (8 * 8) 76" 76]
  by (simp add: grid_resample_def)

section \<open>Properties of the classification loop\<close>

lemma is_dup_scan_iff:
  "is_dup_scan h us \<longleftrightarrow> (\<exists>u \<in> set us. hamming_distance h u \<le> HASH_DIFF_THRESHOLD)"
  by (induction us) auto

lemma is_dup_scan_append:
  "is_dup_scan h (xs @ ys) \<longleftrightarrow> is_dup_scan h xs \<or> is_dup_scan h ys"
  by (auto simp: is_dup_scan_iff)

lemma classify_Duplicate:
  "is_dup_scan h (unique_hashes st) \<Longrightarrow>
     classify st p h = (Duplicate, st\<lparr>duplicates := duplicates st @ [p]\<rparr>)"
  by (simp add: classify_def)

lemma classify_Unique:
  "\<not> is_dup_scan h (unique_hashes st) \<Longrightarrow>
     classify st p h = (Unique, st\<lparr>unique_hashes := unique_hashes st @ [h],
                                  unique_filepaths := unique_filepaths st @ [p]\<rparr>)"
  by (simp add: classify_def)

lemma process_image_Continues:
  "try_hash rs mx f = Inl (Continues r) \<Longrightarrow> process_image rs mx st f = (Skipped r, st)"
  by (simp add: process_image_def)

lemma process_image_Raises:
  "try_hash rs mx f = Inl (Raises e) \<Longrightarrow> process_image rs mx st f = (Aborted e, st)"
  by (simp add: process_image_def)

lemma classify_not_aborted: "\<not> aborted (fst (classify st p h))"
  by (simp add: classify_def)

lemma process_image_Inr:
  "try_hash rs mx f = Inr h \<Longrightarrow> process_image rs mx st f = classify st (img_path f) h"
  by (simp add: process_image_def)

lemma process_images_Cons:
  "process_images rs mx st (f # fs) =
     (if aborted (fst (process_image rs mx st f))
      then ([fst (process_image rs mx st f)], snd (process_image rs mx st f))
      else (fst (process_image rs mx st f)
              # fst (process_images rs mx (snd (process_image rs mx st f)) fs),
            snd (process_images rs mx (snd (process_image rs mx st f)) fs)))"
  by (simp add: case_prod_beta Let_def)

lemma process_images_append:
  "process_images rs mx st (fs @ gs) =
     (if list_ex aborted (fst (process_images rs mx st fs))
      then process_images rs mx st fs
      else (fst (process_images rs mx st fs)
              @ fst (process_images rs mx (snd (process_images rs mx st fs)) gs),
            snd (process_images rs mx (snd (process_images rs mx st fs)) gs)))"
proof (induction fs arbitrary: st)
  case Nil
  show ?case by simp
next
  case (Cons f fs)
  show ?case
  proof (cases "aborted (fst (process_image rs mx st f))")
    case True
    then show ?thesis
      by (simp add: process_images_Cons del: process_images.simps)
  next
    case False
    then show ?thesis
      using Cons.IH [of "snd (process_image rs mx st f)"]
      by (simp add: process_images_Cons del: process_images.simps)
  qed
qed

lemma process_images_length:
  "\<not> list_ex aborted (fst (process_images rs mx st fs)) \<Longrightarrow>
     length (fst (process_images rs mx st fs)) = length fs"
proof (induction fs arbitrary: st)
  case Nil
  show ?case by simp
next
  case (Cons f fs)
  then show ?case
    by (cases "aborted (fst (process_image rs mx st f))")
       (simp_all add: process_images_Cons del: process_images.simps)
qed

subsection \<open>The examples, evaluated\<close>

lemma hamming_distance_replicate_append:
  "hamming_distance (replicate n a @ xs) (replicate n b @ ys) =
     (if a = b then 0 else int n) + hamming_distance xs ys"
  by (simp add: hamming_distance_append hamming_distance_replicate)

lemma hamming_distance_examples:
  "hamming_distance hash_A hash_B = 3" "hamming_distance hash_B hash_A = 3"
  "hamming_distance hash_B hash_C = 3" "hamming_distance hash_C hash_B = 3"
  "hamming_distance hash_A hash_C = 6" "hamming_distance hash_C hash_A = 6"
  by (simp_all add: hash_A_def hash_B_def hash_C_def hamming_distance_replicate_append
        hamming_distance_replicate)

lemma try_hash_grid_file:
  assumes "length g = 64"
  shows "try_hash grid_resample MAX_IMAGE_SIZE (grid_file p g) =
           Inr (map (\<lambda>pixel. if (of_int (sum_list g) :: rat) / 64 \<le> of_int pixel then 1 else 0) g)"
proof -
  have "g \<noteq> []" using assms by auto
  moreover have "grid_resample g HASH_SIZE = Inr g"
    using assms by (simp add: grid_resample_def HASH_SIZE_def)
  ultimately have "average_hash grid_resample g HASH_SIZE =
      Inr (map (\<lambda>pixel. if (of_int (sum_list g) :: rat) / 64 \<le> of_int pixel then 1 else 0) g)"
    using average_hash_Inr [of grid_resample g HASH_SIZE g] assms by simp
  then show ?thesis
    by (simp add: try_hash_def try_body_def grid_file_def MAX_IMAGE_SIZE_def)
qed

lemma try_hash_examples:
  "try_hash grid_resample MAX_IMAGE_SIZE (grid_file p grid_A) = Inr hash_A"
  "try_hash grid_resample MAX_IMAGE_SIZE (grid_file p grid_B) = Inr hash_B"
  "try_hash grid_resample MAX_IMAGE_SIZE (grid_file p grid_C) = Inr hash_C"
  by (simp_all add: try_hash_grid_file grid_A_def grid_B_def grid_C_def
        hash_A_def hash_B_def hash_C_def sum_list_replicate)

lemma try_hash_uniform_grid:
  "try_hash grid_resample MAX_IMAGE_SIZE (grid_file p (replicate 64 v)) = Inr (replicate 64 1)"
  by (simp add: try_hash_grid_file sum_list_replicate)

lemma try_hash_corrupt_file:
  "try_hash rs MAX_IMAGE_SIZE (corrupt_file p) = Inl (Continues (Invalid_or_corrupted IOError))"
  by (simp add: try_hash_def try_body_def corrupt_file_def MAX_IMAGE_SIZE_def)

lemma try_hash_unprintable_corrupt_file:
  "try_hash rs MAX_IMAGE_SIZE (unprintable_corrupt_file p) = Inl (Raises ValueError)"
  by (simp add: try_hash_def try_body_def unprintable_corrupt_file_def MAX_IMAGE_SIZE_def)

lemma try_hash_unloadable_file:
  "try_hash rs MAX_IMAGE_SIZE (unloadable_file p) =
     Inl (Continues (Error_processing OtherException))"
  by (simp add: try_hash_def try_body_def unloadable_file_def MAX_IMAGE_SIZE_def)

lemma img_path_grid_file [simp]: "img_path (grid_file p g) = p"
  by (simp add: grid_file_def)

lemma run_three:
  assumes "try_hash rs mx fx = Inr X" and "try_hash rs mx fy = Inr Y"
      and "try_hash rs mx fz = Inr Z"
      and "hamming_distance Y X \<le> HASH_DIFF_THRESHOLD"
      and "HASH_DIFF_THRESHOLD < hamming_distance Z X"
  shows "run rs mx [fx, fy, fz] =
           ([Unique, Duplicate, Unique],
            \<lparr>unique_hashes = [X, Z], unique_filepaths = [img_path fx, img_path fz],
             duplicates = [img_path fy]\<rparr>)"
  using assms by (simp add: run_def init_state_def process_image_def classify_def)

lemma run_two:
  assumes "try_hash rs mx fx = Inr X" and "try_hash rs mx fy = Inr Y"
      and "hamming_distance Y X \<le> HASH_DIFF_THRESHOLD"
  shows "run rs mx [fx, fy] =
           ([Unique, Duplicate],
            \<lparr>unique_hashes = [X], unique_filepaths = [img_path fx],
             duplicates = [img_path fy]\<rparr>)"
  using assms by (simp add: run_def init_state_def process_image_def classify_def)

subsection \<open>First match wins\<close>

lemma find_accepted_None:
  "length hs = length ps \<Longrightarrow>
     find (\<lambda>(member_fp, representative).
             hamming_distance fp member_fp \<le> HASH_DIFF_THRESHOLD) (zip hs ps) = None
       \<longleftrightarrow> \<not> is_dup_scan fp hs"
  by (induction hs ps rule: list_induct2) auto

lemma find_accepted_Some:
  assumes "length hs = length ps" and "hs = xs @ m # ys"
      and "\<not> is_dup_scan fp xs" and "hamming_distance fp m \<le> HASH_DIFF_THRESHOLD"
  shows "find (\<lambda>(member_fp, representative).
                 hamming_distance fp member_fp \<le> HASH_DIFF_THRESHOLD) (zip hs ps)
           = Some (m, ps ! length xs)"
  using assms
proof (induction xs arbitrary: hs ps)
  case Nil
  then show ?case by (cases ps) auto
next
  case (Cons x xs)
  then obtain p ps' where ps: "ps = p # ps'" by (cases ps) auto
  have "length (xs @ m # ys) = length ps'"
    using Cons.prems ps by simp
  moreover have "\<not> is_dup_scan fp xs" and "\<not> hamming_distance fp x \<le> HASH_DIFF_THRESHOLD"
    using Cons.prems(3) by (auto split: if_splits)
  ultimately show ?case
    using Cons.IH [of "xs @ m # ys" ps'] Cons.prems ps by simp
qed

text \<open>
  Claim C1, as amended. The classifier scans the accepted hashes in the order in which
  they were accepted. At the first one within the threshold of the new hash it stops,
  so that what comes later has no influence, and records the image as a duplicate by
  appending its path to \<^verbatim>\<open>duplicates\<close>; the accepted lists stay as they are. If none is
  within the threshold it appends the hash and the path of the image to the accepted
  lists and the image is unique. This is the classifier of the specification with the
  representative left out of the verdict: the member that the specification names as
  representative is the first one within the threshold, but the program returns only
  that the image is a duplicate, not of which member.
\<close>

theorem classify_first_match:
  assumes "length (unique_hashes st) = length (unique_filepaths st)"
  shows "fst (classify st path fp) =
           forget_representative (fst (spec_classify (accepted_set st) path fp))
       \<and> accepted_set (snd (classify st path fp)) = snd (spec_classify (accepted_set st) path fp)
       \<and> length (unique_hashes (snd (classify st path fp))) =
           length (unique_filepaths (snd (classify st path fp)))
       \<and> duplicates (snd (classify st path fp)) =
           duplicates st @ (if fst (classify st path fp) = Duplicate then [path] else [])
       \<and> (\<forall>xs m ys.
             unique_hashes st = xs @ m # ys \<and> \<not> is_dup_scan fp xs
               \<and> hamming_distance fp m \<le> HASH_DIFF_THRESHOLD \<longrightarrow>
             fst (spec_classify (accepted_set st) path fp) =
               Spec_Duplicate_of (unique_filepaths st ! length xs)
           \<and> classify st path fp = (Duplicate, st\<lparr>duplicates := duplicates st @ [path]\<rparr>)
           \<and> (\<forall>ys'. is_dup_scan fp (xs @ m # ys')))
       \<and> ((\<forall>m \<in> set (unique_hashes st). HASH_DIFF_THRESHOLD < hamming_distance fp m) \<longrightarrow>
             classify st path fp =
               (Unique, st\<lparr>unique_hashes := unique_hashes st @ [fp],
                          unique_filepaths := unique_filepaths st @ [path]\<rparr>))"
proof -
  let ?P = "\<lambda>(member_fp :: int list, representative :: string).
              hamming_distance fp member_fp \<le> HASH_DIFF_THRESHOLD"
  have spec: "spec_classify (accepted_set st) path fp =
      (case find ?P (accepted_set st) of
         Some (member_fp, representative) \<Rightarrow> (Spec_Duplicate_of representative, accepted_set st)
       | None \<Rightarrow> (Spec_Unique, accepted_set st @ [(fp, path)]))"
    by (simp add: spec_classify_def)
  have none_iff: "find ?P (accepted_set st) = None \<longleftrightarrow> \<not> is_dup_scan fp (unique_hashes st)"
    unfolding accepted_set_def using assms by (rule find_accepted_None)
  have c1: "fst (classify st path fp) =
      forget_representative (fst (spec_classify (accepted_set st) path fp))"
    using none_iff by (cases "find ?P (accepted_set st)") (auto simp: spec classify_def)
  have c2: "accepted_set (snd (classify st path fp)) =
      snd (spec_classify (accepted_set st) path fp)"
  proof -
    have "snd (spec_classify (accepted_set st) path fp) =
        (if is_dup_scan fp (unique_hashes st) then accepted_set st
         else accepted_set st @ [(fp, path)])"
      using none_iff by (cases "find ?P (accepted_set st)") (auto simp: spec)
    moreover have "accepted_set (snd (classify st path fp)) =
        (if is_dup_scan fp (unique_hashes st) then accepted_set st
         else accepted_set st @ [(fp, path)])"
      using assms by (simp add: classify_def accepted_set_def)
    ultimately show ?thesis by simp
  qed
  have c3: "length (unique_hashes (snd (classify st path fp))) =
      length (unique_filepaths (snd (classify st path fp)))"
    using assms by (simp add: classify_def)
  have c4: "duplicates (snd (classify st path fp)) =
      duplicates st @ (if fst (classify st path fp) = Duplicate then [path] else [])"
    by (simp add: classify_def)
  have c5: "\<forall>xs m ys.
      unique_hashes st = xs @ m # ys \<and> \<not> is_dup_scan fp xs
        \<and> hamming_distance fp m \<le> HASH_DIFF_THRESHOLD \<longrightarrow>
      fst (spec_classify (accepted_set st) path fp) =
        Spec_Duplicate_of (unique_filepaths st ! length xs)
      \<and> classify st path fp = (Duplicate, st\<lparr>duplicates := duplicates st @ [path]\<rparr>)
      \<and> (\<forall>ys'. is_dup_scan fp (xs @ m # ys'))"
  proof (intro allI impI, elim conjE)
    fix xs m ys
    assume split: "unique_hashes st = xs @ m # ys"
      and before: "\<not> is_dup_scan fp xs"
      and near: "hamming_distance fp m \<le> HASH_DIFF_THRESHOLD"
    have "find ?P (accepted_set st) = Some (m, unique_filepaths st ! length xs)"
      unfolding accepted_set_def using assms split before near by (rule find_accepted_Some)
    then have "fst (spec_classify (accepted_set st) path fp) =
        Spec_Duplicate_of (unique_filepaths st ! length xs)"
      by (simp add: spec)
    moreover have "is_dup_scan fp (unique_hashes st)"
      using split near by (simp add: is_dup_scan_append)
    then have "classify st path fp = (Duplicate, st\<lparr>duplicates := duplicates st @ [path]\<rparr>)"
      by (rule classify_Duplicate)
    moreover have "\<forall>ys'. is_dup_scan fp (xs @ m # ys')"
      using near by (simp add: is_dup_scan_append)
    ultimately show "fst (spec_classify (accepted_set st) path fp) =
        Spec_Duplicate_of (unique_filepaths st ! length xs)
      \<and> classify st path fp = (Duplicate, st\<lparr>duplicates := duplicates st @ [path]\<rparr>)
      \<and> (\<forall>ys'. is_dup_scan fp (xs @ m # ys'))"
      by blast
  qed
  have c6: "(\<forall>m \<in> set (unique_hashes st). HASH_DIFF_THRESHOLD < hamming_distance fp m) \<longrightarrow>
      classify st path fp =
        (Unique, st\<lparr>unique_hashes := unique_hashes st @ [fp],
                   unique_filepaths := unique_filepaths st @ [path]\<rparr>)"
  proof
    assume "\<forall>m \<in> set (unique_hashes st). HASH_DIFF_THRESHOLD < hamming_distance fp m"
    then have "\<not> is_dup_scan fp (unique_hashes st)"
      by (auto simp: is_dup_scan_iff)
    then show "classify st path fp =
        (Unique, st\<lparr>unique_hashes := unique_hashes st @ [fp],
                   unique_filepaths := unique_filepaths st @ [path]\<rparr>)"
      by (rule classify_Unique)
  qed
  show ?thesis by (intro conjI c1 c2 c3 c4 c5 c6)
qed

theorem classify_first_match_witness:
  "length (unique_hashes \<lparr>unique_hashes = [hash_A, hash_C], unique_filepaths = [''a'', ''c''],
                           duplicates = []\<rparr>) =
     length (unique_filepaths \<lparr>unique_hashes = [hash_A, hash_C], unique_filepaths = [''a'', ''c''],
                               duplicates = []\<rparr>)
   \<and> \<not> is_dup_scan hash_B []
   \<and> hamming_distance hash_B hash_A \<le> HASH_DIFF_THRESHOLD
   \<and> hamming_distance hash_B hash_C \<le> HASH_DIFF_THRESHOLD
   \<and> fst (spec_classify [(hash_A, ''a''), (hash_C, ''c'')] ''b'' hash_B) = Spec_Duplicate_of ''a''
   \<and> classify \<lparr>unique_hashes = [hash_A, hash_C], unique_filepaths = [''a'', ''c''],
                 duplicates = []\<rparr> ''b'' hash_B =
       (Duplicate, \<lparr>unique_hashes = [hash_A, hash_C], unique_filepaths = [''a'', ''c''],
                    duplicates = [''b'']\<rparr>)
   \<and> set [hash_A] = {hash_A}
   \<and> HASH_DIFF_THRESHOLD < hamming_distance hash_C hash_A
   \<and> classify \<lparr>unique_hashes = [hash_A], unique_filepaths = [''a''], duplicates = []\<rparr>
         ''c'' hash_C =
       (Unique, \<lparr>unique_hashes = [hash_A, hash_C], unique_filepaths = [''a'', ''c''],
                 duplicates = []\<rparr>)"
proof -
  let ?st = "\<lparr>unique_hashes = [hash_A, hash_C], unique_filepaths = [''a'', ''c''],
              duplicates = []\<rparr>"
  let ?st1 = "\<lparr>unique_hashes = [hash_A], unique_filepaths = [''a''], duplicates = []\<rparr>"
  have len: "length (unique_hashes ?st) = length (unique_filepaths ?st)" by simp
  have len1: "length (unique_hashes ?st1) = length (unique_filepaths ?st1)" by simp
  have near: "hamming_distance hash_B hash_A \<le> HASH_DIFF_THRESHOLD"
    "hamming_distance hash_B hash_C \<le> HASH_DIFF_THRESHOLD"
    by (simp_all add: hamming_distance_examples HASH_DIFF_THRESHOLD_def)
  have far: "\<forall>m \<in> set [hash_A]. HASH_DIFF_THRESHOLD < hamming_distance hash_C m"
    by (simp add: hamming_distance_examples HASH_DIFF_THRESHOLD_def)
  have split: "unique_hashes ?st = [] @ hash_A # [hash_C] \<and> \<not> is_dup_scan hash_B []
      \<and> hamming_distance hash_B hash_A \<le> HASH_DIFF_THRESHOLD"
    using near by simp
  from classify_first_match [OF len, of "''b''" hash_B] split
  have "fst (spec_classify (accepted_set ?st) ''b'' hash_B) =
          Spec_Duplicate_of (unique_filepaths ?st ! length ([] :: int list list))
      \<and> classify ?st ''b'' hash_B = (Duplicate, ?st\<lparr>duplicates := duplicates ?st @ [''b'']\<rparr>)"
    by blast
  moreover from classify_first_match [OF len1, of "''c''" hash_C] far
  have "classify ?st1 ''c'' hash_C =
      (Unique, ?st1\<lparr>unique_hashes := unique_hashes ?st1 @ [hash_C],
                     unique_filepaths := unique_filepaths ?st1 @ [''c'']\<rparr>)"
    by simp
  ultimately show ?thesis
    using near far by (simp add: accepted_set_def)
qed

text \<open>
  The claim as stated fails on the representative. After the images \<open>a\<close> and \<open>c\<close> have
  been accepted, a third image \<open>p\<close> that looks like \<open>a\<close> and one that looks like \<open>c\<close>
  leave the program with the very same verdicts and the very same three lists, whereas
  the verdict the claim describes would be duplicate of \<open>a\<close> in one run and duplicate
  of \<open>c\<close> in the other: what the program returns does not name the member that matched.
\<close>

theorem classify_representative_counterexample:
  "run grid_resample MAX_IMAGE_SIZE
       [grid_file ''a'' grid_A, grid_file ''c'' grid_C, grid_file ''p'' grid_A] =
     run grid_resample MAX_IMAGE_SIZE
       [grid_file ''a'' grid_A, grid_file ''c'' grid_C, grid_file ''p'' grid_C]
   \<and> accepted_set (snd (run grid_resample MAX_IMAGE_SIZE
        [grid_file ''a'' grid_A, grid_file ''c'' grid_C])) = [(hash_A, ''a''), (hash_C, ''c'')]
   \<and> fst (spec_classify [(hash_A, ''a''), (hash_C, ''c'')] ''p'' hash_A) = Spec_Duplicate_of ''a''
   \<and> fst (spec_classify [(hash_A, ''a''), (hash_C, ''c'')] ''p'' hash_C) = Spec_Duplicate_of ''c''"
  by (simp add: run_def init_state_def process_image_def classify_def accepted_set_def
        spec_classify_def try_hash_examples hamming_distance_examples HASH_DIFF_THRESHOLD_def)

subsection \<open>The order of the batch decides\<close>

text \<open>
  Claim C2, as amended. For three images whose hashes \<open>A\<close>, \<open>B\<close>, \<open>C\<close> have \<open>A\<close>, \<open>B\<close>
  and \<open>B\<close>, \<open>C\<close> within the threshold but \<open>A\<close>, \<open>C\<close> not: in the order \<open>A\<close>, \<open>B\<close>, \<open>C\<close>
  the image \<open>B\<close> is a duplicate, matched by \<open>A\<close>, the only accepted hash at that point,
  and \<open>C\<close> is unique, being compared with \<open>A\<close> alone; in the order \<open>C\<close>, \<open>B\<close>, \<open>A\<close> the
  image \<open>B\<close> is a duplicate, matched by \<open>C\<close>, and \<open>A\<close> is unique. The first and the last
  image of the batch are accepted in either order.
\<close>

theorem order_dependence:
  assumes "try_hash rs mx fa = Inr A" and "try_hash rs mx fb = Inr B"
      and "try_hash rs mx fc = Inr C"
      and "hamming_distance A B \<le> HASH_DIFF_THRESHOLD"
      and "hamming_distance B C \<le> HASH_DIFF_THRESHOLD"
      and "HASH_DIFF_THRESHOLD < hamming_distance A C"
  shows "run rs mx [fa, fb, fc] =
           ([Unique, Duplicate, Unique],
            \<lparr>unique_hashes = [A, C], unique_filepaths = [img_path fa, img_path fc],
             duplicates = [img_path fb]\<rparr>)
       \<and> run rs mx [fc, fb, fa] =
           ([Unique, Duplicate, Unique],
            \<lparr>unique_hashes = [C, A], unique_filepaths = [img_path fc, img_path fa],
             duplicates = [img_path fb]\<rparr>)"
proof -
  have "hamming_distance B A \<le> HASH_DIFF_THRESHOLD"
    using assms(4) by (simp add: hamming_distance_sym [of B A])
  moreover have "HASH_DIFF_THRESHOLD < hamming_distance C A"
    using assms(6) by (simp add: hamming_distance_sym [of C A])
  ultimately show ?thesis
    using run_three [of rs mx fa A fb B fc C] run_three [of rs mx fc C fb B fa A] assms
    by simp
qed

theorem order_dependence_witness:
  "try_hash grid_resample MAX_IMAGE_SIZE (grid_file ''a'' grid_A) = Inr hash_A
   \<and> try_hash grid_resample MAX_IMAGE_SIZE (grid_file ''b'' grid_B) = Inr hash_B
   \<and> try_hash grid_resample MAX_IMAGE_SIZE (grid_file ''c'' grid_C) = Inr hash_C
   \<and> hamming_distance hash_A hash_B \<le> HASH_DIFF_THRESHOLD
   \<and> hamming_distance hash_B hash_C \<le> HASH_DIFF_THRESHOLD
   \<and> HASH_DIFF_THRESHOLD < hamming_distance hash_A hash_C
   \<and> run grid_resample MAX_IMAGE_SIZE
         [grid_file ''a'' grid_A, grid_file ''b'' grid_B, grid_file ''c'' grid_C] =
       ([Unique, Duplicate, Unique],
        \<lparr>unique_hashes = [hash_A, hash_C], unique_filepaths = [''a'', ''c''],
         duplicates = [''b'']\<rparr>)
   \<and> run grid_resample MAX_IMAGE_SIZE
         [grid_file ''c'' grid_C, grid_file ''b'' grid_B, grid_file ''a'' grid_A] =
       ([Unique, Duplicate, Unique],
        \<lparr>unique_hashes = [hash_C, hash_A], unique_filepaths = [''c'', ''a''],
         duplicates = [''b'']\<rparr>)"
proof -
  have d: "hamming_distance hash_A hash_B \<le> HASH_DIFF_THRESHOLD"
    "hamming_distance hash_B hash_C \<le> HASH_DIFF_THRESHOLD"
    "HASH_DIFF_THRESHOLD < hamming_distance hash_A hash_C"
    by (simp_all add: hamming_distance_examples HASH_DIFF_THRESHOLD_def)
  from order_dependence [OF try_hash_examples(1) [of "''a''"] try_hash_examples(2) [of "''b''"]
      try_hash_examples(3) [of "''c''"] d]
  show ?thesis using d by (simp add: try_hash_examples)
qed

text \<open>
  The claim as stated fails: with \<open>grid_A\<close>, \<open>grid_B\<close>, \<open>grid_C\<close> in this order the third
  image is not a duplicate but unique, since it is compared with the accepted \<open>grid_A\<close>
  only, never with the duplicate \<open>grid_B\<close>; and likewise in the reverse order.
\<close>

theorem order_dependence_counterexample:
  "hamming_distance hash_A hash_B \<le> HASH_DIFF_THRESHOLD
   \<and> hamming_distance hash_B hash_C \<le> HASH_DIFF_THRESHOLD
   \<and> HASH_DIFF_THRESHOLD < hamming_distance hash_A hash_C
   \<and> fst (run grid_resample MAX_IMAGE_SIZE
        [grid_file ''a'' grid_A, grid_file ''b'' grid_B, grid_file ''c'' grid_C]) ! 2 = Unique
   \<and> unique_filepaths (snd (run grid_resample MAX_IMAGE_SIZE
        [grid_file ''a'' grid_A, grid_file ''b'' grid_B, grid_file ''c'' grid_C])) = [''a'', ''c'']
   \<and> fst (run grid_resample MAX_IMAGE_SIZE
        [grid_file ''c'' grid_C, grid_file ''b'' grid_B, grid_file ''a'' grid_A]) ! 2 = Unique
   \<and> unique_filepaths (snd (run grid_resample MAX_IMAGE_SIZE
        [grid_file ''c'' grid_C, grid_file ''b'' grid_B, grid_file ''a'' grid_A])) = [''c'', ''a'']"
  by (simp add: run_three [of _ _ _ hash_A _ hash_B _ hash_C]
        run_three [of _ _ _ hash_C _ hash_B _ hash_A]
        try_hash_examples hamming_distance_examples HASH_DIFF_THRESHOLD_def)

subsection \<open>Uniform squares\<close>

lemma try_hash_uniform:
  assumes "getsize f \<le> mx" and "opened f = Inr img"
      and "rs img HASH_SIZE = Inr (replicate (HASH_SIZE * HASH_SIZE) v)"
  shows "try_hash rs mx f = Inr (replicate (HASH_SIZE * HASH_SIZE) 1)"
proof -
  have "0 < HASH_SIZE * HASH_SIZE" by (simp add: HASH_SIZE_def)
  then have "average_hash rs img HASH_SIZE = Inr (replicate (HASH_SIZE * HASH_SIZE) 1)"
    using assms(3) by (rule average_hash_uniform [rotated])
  then show ?thesis using assms(1,2) by (simp add: try_hash_def try_body_def)
qed

text \<open>
  Claim C7, as amended. Take a batch of a uniform square, a second image and a uniform
  square of another colour, in which the two squares are files within the size limit
  that the library opens, verifies and loads, so that they are hashed, and the second
  image yields a hash too. Then the first image is unique and the third is a duplicate,
  since both squares hash to all ones. The second image is a duplicate exactly when its
  hash is within the threshold of all ones, as it is when the re-saved square is still
  uniform; then one image is accepted in the end, and otherwise two, the first and the
  second. Nothing is said here of a square whose \<^verbatim>\<open>load\<close> raises after the
  \<^verbatim>\<open>verify\<close>.
\<close>

theorem uniform_squares_batch:
  assumes "getsize f1 \<le> mx" and "opened f1 = Inr img1"
      and "rs img1 HASH_SIZE = Inr (replicate (HASH_SIZE * HASH_SIZE) v1)"
      and "getsize f3 \<le> mx" and "opened f3 = Inr img3"
      and "rs img3 HASH_SIZE = Inr (replicate (HASH_SIZE * HASH_SIZE) v3)"
      and "try_hash rs mx f2 = Inr h2"
  shows "fst (run rs mx [f1, f2, f3]) =
           [Unique,
            if hamming_distance h2 (replicate (HASH_SIZE * HASH_SIZE) 1) \<le> HASH_DIFF_THRESHOLD
            then Duplicate else Unique,
            Duplicate]
       \<and> length (unique_hashes (snd (run rs mx [f1, f2, f3]))) =
           (if hamming_distance h2 (replicate (HASH_SIZE * HASH_SIZE) 1) \<le> HASH_DIFF_THRESHOLD
            then 1 else 2)"
proof -
  have h1: "try_hash rs mx f1 = Inr (replicate (HASH_SIZE * HASH_SIZE) 1)"
    using assms(1-3) by (rule try_hash_uniform)
  have h3: "try_hash rs mx f3 = Inr (replicate (HASH_SIZE * HASH_SIZE) 1)"
    using assms(4-6) by (rule try_hash_uniform)
  have "0 \<le> HASH_DIFF_THRESHOLD" by (simp add: HASH_DIFF_THRESHOLD_def)
  then show ?thesis
    using h1 h3 assms(7)
    by (simp add: run_def init_state_def process_image_def classify_def)
qed

theorem uniform_squares_batch_witness:
  "getsize (grid_file ''img1'' (replicate 64 29)) \<le> MAX_IMAGE_SIZE
   \<and> opened (grid_file ''img1'' (replicate 64 29)) = Inr (replicate 64 29)
   \<and> grid_resample (replicate 64 29) HASH_SIZE = Inr (replicate (HASH_SIZE * HASH_SIZE) 29)
   \<and> getsize (grid_file ''img3'' (replicate 64 76)) \<le> MAX_IMAGE_SIZE
   \<and> opened (grid_file ''img3'' (replicate 64 76)) = Inr (replicate 64 76)
   \<and> grid_resample (replicate 64 76) HASH_SIZE = Inr (replicate (HASH_SIZE * HASH_SIZE) 76)
   \<and> try_hash grid_resample MAX_IMAGE_SIZE (grid_file ''img2'' grid_B) = Inr hash_B
   \<and> hamming_distance hash_B (replicate (HASH_SIZE * HASH_SIZE) 1) = 61
   \<and> fst (run grid_resample MAX_IMAGE_SIZE
        [grid_file ''img1'' (replicate 64 29), grid_file ''img2'' grid_B,
         grid_file ''img3'' (replicate 64 76)]) = [Unique, Unique, Duplicate]
   \<and> length (unique_hashes (snd (run grid_resample MAX_IMAGE_SIZE
        [grid_file ''img1'' (replicate 64 29), grid_file ''img2'' grid_B,
         grid_file ''img3'' (replicate 64 76)]))) = 2"
proof -
  have a: "getsize (grid_file ''img1'' (replicate 64 29)) \<le> MAX_IMAGE_SIZE"
    "opened (grid_file ''img1'' (replicate 64 29)) = Inr (replicate 64 29)"
    "grid_resample (replicate 64 29) HASH_SIZE = Inr (replicate (HASH_SIZE * HASH_SIZE) 29)"
    by (simp_all add: grid_file_def grid_resample_def MAX_IMAGE_SIZE_def HASH_SIZE_def)
  have b: "getsize (grid_file ''img3'' (replicate 64 76)) \<le> MAX_IMAGE_SIZE"
    "opened (grid_file ''img3'' (replicate 64 76)) = Inr (replicate 64 76)"
    "grid_resample (replicate 64 76) HASH_SIZE = Inr (replicate (HASH_SIZE * HASH_SIZE) 76)"
    by (simp_all add: grid_file_def grid_resample_def MAX_IMAGE_SIZE_def HASH_SIZE_def)
  have c: "try_hash grid_resample MAX_IMAGE_SIZE (grid_file ''img2'' grid_B) = Inr hash_B"
    by (rule try_hash_examples)
  have "replicate (HASH_SIZE * HASH_SIZE) (1 :: int) =
      replicate 3 1 @ replicate 3 1 @ replicate 3 1 @ replicate 55 1"
    by (simp add: HASH_SIZE_def replicate_add [symmetric])
  then have d: "hamming_distance hash_B (replicate (HASH_SIZE * HASH_SIZE) 1) = 61"
    by (simp add: hash_B_def hamming_distance_replicate_append hamming_distance_replicate)
  from uniform_squares_batch [OF a b c] d
  show ?thesis using a b c by (simp add: HASH_DIFF_THRESHOLD_def)
qed

text \<open>
  The claim as stated fails, whatever the library answers for the three files. Where it
  loads them: the grey of a blue square is 29 everywhere and that of a red square 76
  everywhere, so both hash to all ones and the red square is a duplicate of the blue
  one; one image is accepted, not two. Where the \<^verbatim>\<open>load\<close> after the \<^verbatim>\<open>verify\<close>
  raises, as it does for PNG and JPEG files: all three images are skipped and none is
  accepted.
\<close>

theorem uniform_squares_batch_counterexample:
  "fst (run grid_resample MAX_IMAGE_SIZE
      [grid_file ''img1'' (replicate 64 29), grid_file ''img2'' (replicate 64 29),
       grid_file ''img3'' (replicate 64 76)]) = [Unique, Duplicate, Duplicate]
   \<and> unique_filepaths (snd (run grid_resample MAX_IMAGE_SIZE
      [grid_file ''img1'' (replicate 64 29), grid_file ''img2'' (replicate 64 29),
       grid_file ''img3'' (replicate 64 76)])) = [''img1'']
   \<and> length (unique_hashes (snd (run grid_resample MAX_IMAGE_SIZE
      [grid_file ''img1'' (replicate 64 29), grid_file ''img2'' (replicate 64 29),
       grid_file ''img3'' (replicate 64 76)]))) = 1
   \<and> run grid_resample MAX_IMAGE_SIZE
        [unloadable_file ''img1'', unloadable_file ''img2'', unloadable_file ''img3''] =
      ([Skipped (Error_processing OtherException), Skipped (Error_processing OtherException),
        Skipped (Error_processing OtherException)],
       \<lparr>unique_hashes = [], unique_filepaths = [], duplicates = []\<rparr>)"
  by (simp add: run_def init_state_def process_image_def classify_def
        try_hash_uniform_grid try_hash_unloadable_file HASH_DIFF_THRESHOLD_def)

subsection \<open>The accepted hashes only grow and stay far apart\<close>

lemma pairwise_far_snoc:
  assumes "pairwise_far hs" and "\<not> is_dup_scan h hs"
  shows "pairwise_far (hs @ [h])"
proof -
  have far: "HASH_DIFF_THRESHOLD < hamming_distance h (hs ! i)" if "i < length hs" for i
    using assms(2) that by (auto simp: is_dup_scan_iff not_le)
  show ?thesis
    unfolding pairwise_far_def
  proof (intro allI impI)
    fix i j
    assume i: "i < length (hs @ [h])" and j: "j < length (hs @ [h])" and ne: "i \<noteq> j"
    consider "i < length hs" "j < length hs"
      | "i < length hs" "j = length hs"
      | "i = length hs" "j < length hs"
      using i j ne by (auto simp: less_Suc_eq)
    then show "HASH_DIFF_THRESHOLD < hamming_distance ((hs @ [h]) ! i) ((hs @ [h]) ! j)"
    proof cases
      case 1
      then show ?thesis using assms(1) ne by (simp add: pairwise_far_def nth_append)
    next
      case 2
      then show ?thesis using far [of i] by (simp add: nth_append hamming_distance_sym)
    next
      case 3
      then show ?thesis using far [of j] by (simp add: nth_append)
    qed
  qed
qed

lemma process_image_grows:
  "prefix (unique_hashes st) (unique_hashes (snd (process_image rs mx st f)))
   \<and> prefix (unique_filepaths st) (unique_filepaths (snd (process_image rs mx st f)))
   \<and> prefix (duplicates st) (duplicates (snd (process_image rs mx st f)))"
  by (simp add: process_image_def classify_def split: sum.splits ending.splits)

lemma process_image_far:
  "pairwise_far (unique_hashes st) \<Longrightarrow>
     pairwise_far (unique_hashes (snd (process_image rs mx st f)))"
  by (simp add: process_image_def classify_def pairwise_far_snoc
        split: sum.splits ending.splits)

lemma process_images_grows:
  "prefix (unique_hashes st) (unique_hashes (snd (process_images rs mx st fs)))
   \<and> prefix (unique_filepaths st) (unique_filepaths (snd (process_images rs mx st fs)))
   \<and> prefix (duplicates st) (duplicates (snd (process_images rs mx st fs)))"
proof (induction fs arbitrary: st)
  case Nil
  show ?case by simp
next
  case (Cons f fs)
  obtain v st1 where step: "process_image rs mx st f = (v, st1)"
    by (cases "process_image rs mx st f")
  have "snd (process_images rs mx st (f # fs)) = st1
      \<or> snd (process_images rs mx st (f # fs)) = snd (process_images rs mx st1 fs)"
    using step by (simp add: process_images_Cons del: process_images.simps)
  moreover have "prefix (unique_hashes st) (unique_hashes st1)
      \<and> prefix (unique_filepaths st) (unique_filepaths st1)
      \<and> prefix (duplicates st) (duplicates st1)"
    using process_image_grows [of st rs mx f] step by simp
  ultimately show ?case
    using Cons.IH [of st1] by (auto intro: prefix_order.trans)
qed

lemma process_images_far:
  "pairwise_far (unique_hashes st) \<Longrightarrow>
     pairwise_far (unique_hashes (snd (process_images rs mx st fs)))"
proof (induction fs arbitrary: st)
  case Nil
  then show ?case by simp
next
  case (Cons f fs)
  obtain v st1 where step: "process_image rs mx st f = (v, st1)"
    by (cases "process_image rs mx st f")
  have "pairwise_far (unique_hashes st1)"
    using process_image_far [OF Cons.prems, of rs mx f] step by simp
  then show ?case
    using Cons.IH [of st1] step
    by (simp add: process_images_Cons del: process_images.simps)
qed

lemma pairwise_far_init: "pairwise_far (unique_hashes init_state)"
  by (simp add: pairwise_far_def init_state_def)

text \<open>
  Claim C6. The lists of accepted hashes and paths only grow: what a run has accepted
  after a part of the batch is a prefix of what it has accepted after any longer part,
  so nothing is removed or reordered. And after every step, which is the end of the run
  on some initial part \<open>fs\<close> of the batch, any two accepted hashes at different positions
  are farther apart than the threshold.
\<close>

theorem accepted_set_grows_and_stays_far:
  "prefix (unique_hashes (snd (run rs mx fs))) (unique_hashes (snd (run rs mx (fs @ gs))))
   \<and> prefix (unique_filepaths (snd (run rs mx fs))) (unique_filepaths (snd (run rs mx (fs @ gs))))
   \<and> pairwise_far (unique_hashes (snd (run rs mx fs)))"
proof -
  have "snd (run rs mx (fs @ gs)) = snd (run rs mx fs)
      \<or> snd (run rs mx (fs @ gs)) = snd (process_images rs mx (snd (run rs mx fs)) gs)"
    by (simp add: run_def process_images_append)
  then show ?thesis
    using process_images_grows [of "snd (run rs mx fs)" rs mx gs]
      process_images_far [OF pairwise_far_init, of rs mx fs]
    by (auto simp: run_def)
qed

theorem accepted_set_grows_and_stays_far_witness:
  "unique_hashes (snd (run grid_resample MAX_IMAGE_SIZE
      [grid_file ''a'' grid_A, grid_file ''b'' grid_B])) = [hash_A]
   \<and> unique_hashes (snd (run grid_resample MAX_IMAGE_SIZE
      ([grid_file ''a'' grid_A, grid_file ''b'' grid_B] @ [grid_file ''c'' grid_C]))) = [hash_A, hash_C]
   \<and> prefix [hash_A] [hash_A, hash_C]
   \<and> pairwise_far [hash_A, hash_C]
   \<and> (0 :: nat) < length [hash_A, hash_C] \<and> (1 :: nat) < length [hash_A, hash_C] \<and> (0 :: nat) \<noteq> 1
   \<and> HASH_DIFF_THRESHOLD < hamming_distance ([hash_A, hash_C] ! 0) ([hash_A, hash_C] ! 1)"
proof -
  let ?fs = "[grid_file ''a'' grid_A, grid_file ''b'' grid_B]"
  let ?gs = "[grid_file ''c'' grid_C]"
  have two: "unique_hashes (snd (run grid_resample MAX_IMAGE_SIZE ?fs)) = [hash_A]"
    by (simp add: run_two [of _ _ _ hash_A _ hash_B] try_hash_examples
          hamming_distance_examples HASH_DIFF_THRESHOLD_def)
  have three: "unique_hashes (snd (run grid_resample MAX_IMAGE_SIZE (?fs @ ?gs))) = [hash_A, hash_C]"
    by (simp add: run_three [of _ _ _ hash_A _ hash_B _ hash_C] try_hash_examples
          hamming_distance_examples HASH_DIFF_THRESHOLD_def)
  have far: "pairwise_far [hash_A, hash_C]"
    using accepted_set_grows_and_stays_far [of grid_resample MAX_IMAGE_SIZE "?fs @ ?gs" "[]"] three
    by simp
  have pre: "prefix [hash_A] [hash_A, hash_C]"
    using accepted_set_grows_and_stays_far [of grid_resample MAX_IMAGE_SIZE ?fs ?gs] two three
    by simp
  have "HASH_DIFF_THRESHOLD < hamming_distance ([hash_A, hash_C] ! 0) ([hash_A, hash_C] ! 1)"
  proof -
    have "(0 :: nat) < length [hash_A, hash_C]" and "(1 :: nat) < length [hash_A, hash_C]"
      and "(0 :: nat) \<noteq> 1"
      by simp_all
    then show ?thesis
      using far unfolding pairwise_far_def by blast
  qed
  then show ?thesis using two three far pre by simp
qed

subsection \<open>Images that fail\<close>

text \<open>
  An image fails when it is too large, when it cannot be opened, verified or loaded, or
  when hashing it raises. What the loop then does depends on whether the message about
  the image can be printed.
\<close>

lemma try_hash_fails:
  assumes "getsize f > mx \<or> (\<exists>e. opened f = Inl e)
         \<or> (\<exists>img e. opened f = Inr img \<and> average_hash rs img HASH_SIZE = Inl e)"
  shows "(print_raises f = None \<longrightarrow> (\<exists>reason. try_hash rs mx f = Inl (Continues reason)))
       \<and> (\<forall>e. print_raises f = Some e \<longrightarrow> try_hash rs mx f = Inl (Raises e))"
  using assms by (auto simp: try_hash_def try_body_def split: option.splits)

text \<open>
  Where the message is printed, the failing image is skipped and leaves no trace: in a
  run that has not been aborted before it, the state stays as it was, and the verdicts
  of all other images and the final lists are those of the batch without it.
\<close>

lemma printed_failure_is_skipped:
  assumes "getsize f > mx \<or> (\<exists>e. opened f = Inl e)
         \<or> (\<exists>img e. opened f = Inr img \<and> average_hash rs img HASH_SIZE = Inl e)"
      and "print_raises f = None"
      and "\<not> list_ex aborted (fst (run rs mx fs))"
  shows "\<exists>reason.
           (\<forall>st. process_image rs mx st f = (Skipped reason, st))
         \<and> fst (run rs mx (fs @ f # gs)) =
             take (length fs) (fst (run rs mx (fs @ gs))) @ Skipped reason
               # drop (length fs) (fst (run rs mx (fs @ gs)))
         \<and> snd (run rs mx (fs @ f # gs)) = snd (run rs mx (fs @ gs))"
proof -
  obtain reason where r: "try_hash rs mx f = Inl (Continues reason)"
    using try_hash_fails [OF assms(1)] assms(2) by blast
  have skip: "process_image rs mx st f = (Skipped reason, st)" for st
    using r by (rule process_image_Continues)
  let ?vs = "fst (process_images rs mx init_state fs)"
  let ?st1 = "snd (process_images rs mx init_state fs)"
  have ok: "\<not> list_ex aborted ?vs"
    using assms(3) by (simp add: run_def)
  have len: "length ?vs = length fs"
    using ok by (rule process_images_length)
  have "process_images rs mx ?st1 (f # gs) =
      (Skipped reason # fst (process_images rs mx ?st1 gs),
       snd (process_images rs mx ?st1 gs))"
    by (simp add: process_images_Cons skip del: process_images.simps)
  then have "run rs mx (fs @ f # gs) =
      (?vs @ Skipped reason # fst (process_images rs mx ?st1 gs),
       snd (process_images rs mx ?st1 gs))"
    using ok by (simp add: run_def process_images_append [of rs mx init_state fs "f # gs"])
  moreover have "run rs mx (fs @ gs) =
      (?vs @ fst (process_images rs mx ?st1 gs), snd (process_images rs mx ?st1 gs))"
    using ok by (simp add: run_def process_images_append [of rs mx init_state fs gs])
  ultimately show ?thesis
    using skip len by auto
qed

text \<open>
  Where the message cannot be printed, the exception of \<^verbatim>\<open>print\<close> leaves the loop: the
  run is aborted at the failing image and no later image is processed.
\<close>

lemma unprinted_failure_aborts:
  assumes "getsize f > mx \<or> (\<exists>e. opened f = Inl e)
         \<or> (\<exists>img e. opened f = Inr img \<and> average_hash rs img HASH_SIZE = Inl e)"
      and "print_raises f = Some e"
      and "\<not> list_ex aborted (fst (run rs mx fs))"
  shows "run rs mx (fs @ f # gs) = (fst (run rs mx fs) @ [Aborted e], snd (run rs mx fs))"
proof -
  have "try_hash rs mx f = Inl (Raises e)"
    using try_hash_fails [OF assms(1)] assms(2) by blast
  then have "process_image rs mx st f = (Aborted e, st)" for st
    by (rule process_image_Raises)
  then have "process_images rs mx st (f # gs) = ([Aborted e], st)" for st
    by (simp add: process_images_Cons del: process_images.simps)
  then show ?thesis
    using assms(3)
    by (simp add: run_def process_images_append [of rs mx init_state fs "f # gs"])
qed

text \<open>
  Claim C9 says that an image that fails never aborts the run: it is skipped, it is
  not accepted, and every later image is classified as if the failing one had not been
  in the batch. The loop is written for that, with a \<^verbatim>\<open>try\<close> statement around each
  image whose \<^verbatim>\<open>except\<close> clauses continue with the next one, but each clause first
  prints a message that names the file, outside the \<^verbatim>\<open>try\<close> block. Here a batch of an
  image, a corrupt file whose name the standard output cannot encode, and another image:
  the run is aborted at the corrupt file with the exception of \<^verbatim>\<open>print\<close> and the third
  image is never classified, whereas in the batch without the corrupt file the third
  image is unique. With the same corrupt file under a name that can be printed the run
  goes on as the claim says.
\<close>

theorem unprintable_failure_aborts_run:
  "run grid_resample MAX_IMAGE_SIZE
       [grid_file ''a'' grid_A, unprintable_corrupt_file ''b'', grid_file ''c'' grid_C] =
     ([Unique, Aborted ValueError],
      \<lparr>unique_hashes = [hash_A], unique_filepaths = [''a''], duplicates = []\<rparr>)
   \<and> run grid_resample MAX_IMAGE_SIZE [grid_file ''a'' grid_A, grid_file ''c'' grid_C] =
     ([Unique, Unique],
      \<lparr>unique_hashes = [hash_A, hash_C], unique_filepaths = [''a'', ''c''],
       duplicates = []\<rparr>)
   \<and> run grid_resample MAX_IMAGE_SIZE
       [grid_file ''a'' grid_A, corrupt_file ''b'', grid_file ''c'' grid_C] =
     ([Unique, Skipped (Invalid_or_corrupted IOError), Unique],
      \<lparr>unique_hashes = [hash_A, hash_C], unique_filepaths = [''a'', ''c''],
       duplicates = []\<rparr>)"
  by (simp add: run_def init_state_def process_image_def classify_def try_hash_examples
        try_hash_corrupt_file try_hash_unprintable_corrupt_file hamming_distance_examples
        HASH_DIFF_THRESHOLD_def)

subsection \<open>The verdicts are a function of the stream of hashes\<close>

lemma process_images_same_hashes:
  assumes "map (try_hash rs mx) fs = map (try_hash rs' mx') fs'"
      and "unique_hashes st = unique_hashes st'"
  shows "fst (process_images rs mx st fs) = fst (process_images rs' mx' st' fs')
       \<and> unique_hashes (snd (process_images rs mx st fs)) =
           unique_hashes (snd (process_images rs' mx' st' fs'))"
proof -
  have "length fs = length fs'"
    using assms(1) by (rule map_eq_imp_length_eq)
  then show ?thesis
    using assms
  proof (induction fs fs' arbitrary: st st' rule: list_induct2)
    case Nil
    then show ?case by simp
  next
    case (Cons f fs f' fs')
    obtain v st1 where s: "process_image rs mx st f = (v, st1)"
      by (cases "process_image rs mx st f")
    obtain v' st1' where s': "process_image rs' mx' st' f' = (v', st1')"
      by (cases "process_image rs' mx' st' f'")
    have eq: "try_hash rs mx f = try_hash rs' mx' f'"
      and rest: "map (try_hash rs mx) fs = map (try_hash rs' mx') fs'"
      using Cons.prems(1) by simp_all
    have "v = v' \<and> unique_hashes st1 = unique_hashes st1'"
      using s s' eq Cons.prems(2)
      by (auto simp: process_image_def classify_def split: sum.splits ending.splits if_splits)
    then show ?case
      using Cons.IH [OF rest, of st1 st1'] s s'
      by (simp add: process_images_Cons del: process_images.simps)
  qed
qed

text \<open>
  Claim C8. The sequence of verdicts is determined by the ordered sequence of what the
  \<^verbatim>\<open>try\<close> statement yields for each image, a hash or the way it ends without one: two
  runs over batches that agree on it give the same verdicts. In particular this holds for two runs
  over the same batch with the same configuration.
\<close>

theorem run_deterministic:
  assumes "map (try_hash rs mx) fs = map (try_hash rs' mx') fs'"
  shows "fst (run rs mx fs) = fst (run rs' mx' fs')"
  using process_images_same_hashes [OF assms, of init_state init_state]
  by (simp add: run_def)

theorem run_deterministic_witness:
  "map (try_hash grid_resample MAX_IMAGE_SIZE) [grid_file ''x'' grid_A, grid_file ''y'' grid_B] =
     map (try_hash grid_resample MAX_IMAGE_SIZE) [grid_file ''u'' grid_A, grid_file ''v'' grid_B]
   \<and> fst (run grid_resample MAX_IMAGE_SIZE [grid_file ''x'' grid_A, grid_file ''y'' grid_B]) =
     fst (run grid_resample MAX_IMAGE_SIZE [grid_file ''u'' grid_A, grid_file ''v'' grid_B])"
proof -
  have h: "map (try_hash grid_resample MAX_IMAGE_SIZE) [grid_file ''x'' grid_A, grid_file ''y'' grid_B] =
     map (try_hash grid_resample MAX_IMAGE_SIZE) [grid_file ''u'' grid_A, grid_file ''v'' grid_B]"
    by (simp add: try_hash_examples)
  show ?thesis using h run_deterministic [OF h] by simp
qed

end
